theory Spec2Isabelle
  imports Main "HOL-Library.Multiset" "HOL-Library.Char_ord"
begin

section \<open>The real-time server: presence map and room relay\<close>

text \<open>
  The socket server keeps one global \<^verbatim>\<open>activeUsers\<close> map (userId to socket id) and
  registers five handlers per connection. A socket is identified by its id (the
  connection handle); the property \<^verbatim>\<open>socket.userId\<close> that the \<^verbatim>\<open>join\<close> handler writes on the
  socket object is kept per handle. User ids, socket ids and room names are strings.
  What socket.io itself does is written out: a new socket is a member of the room named
  by its own id, \<^verbatim>\<open>socket.broadcast.emit\<close> reaches every connected socket but the
  emitting one, \<^verbatim>\<open>socket.to(room).emit\<close> reaches every member of the room but the emitting
  one, and a socket has left all rooms when its \<^verbatim>\<open>disconnect\<close> handler runs.
\<close>

type_synonym user_id = string
type_synonym handle = string
type_synonym room = string

record message_data =
  md_chatId :: room
  md_fields :: string

record typing_data =
  td_chatId :: room
  td_isTyping :: bool

datatype event =
    UserOnline user_id
  | UserOffline user_id
  | NewMessage message_data
  | UserTyping "user_id option" bool

record server =
  activeUsers :: "user_id \<rightharpoonup> handle"
  socket_userId :: "handle \<rightharpoonup> user_id"
  sockets :: "handle set"
  rooms :: "room \<Rightarrow> handle set"

definition server0 :: server where
  "server0 = \<lparr>activeUsers = Map.empty, socket_userId = Map.empty,
              sockets = {}, rooms = (\<lambda>_. {})\<rparr>"

text \<open>JavaScript truthiness of a string: only the empty string is falsy.\<close>

definition truthy :: "string \<Rightarrow> bool" where
  "truthy v \<longleftrightarrow> v \<noteq> []"

definition broadcast_emit :: "server \<Rightarrow> handle \<Rightarrow> event \<Rightarrow> (handle \<times> event) set" where
  "broadcast_emit s h e = (\<lambda>h'. (h', e)) ` (sockets s - {h})"

definition to_emit :: "server \<Rightarrow> handle \<Rightarrow> room \<Rightarrow> event \<Rightarrow> (handle \<times> event) set" where
  "to_emit s h r e = (\<lambda>h'. (h', e)) ` (rooms s r - {h})"

definition on_connection :: "handle \<Rightarrow> server \<Rightarrow> server" where
  "on_connection h s =
     s\<lparr>socket_userId := (socket_userId s)(h := None),
       sockets := insert h (sockets s),
       rooms := (rooms s)(h := insert h (rooms s h))\<rparr>"

definition on_join :: "handle \<Rightarrow> user_id \<Rightarrow> server \<Rightarrow> server \<times> (handle \<times> event) set" where
  "on_join h userId s =
     (s\<lparr>activeUsers := (activeUsers s)(userId \<mapsto> h),
        socket_userId := (socket_userId s)(h \<mapsto> userId)\<rparr>,
      broadcast_emit s h (UserOnline userId))"

definition on_joinRoom :: "handle \<Rightarrow> room \<Rightarrow> server \<Rightarrow> server \<times> (handle \<times> event) set" where
  "on_joinRoom h roomId s =
     (s\<lparr>rooms := (rooms s)(roomId := insert h (rooms s roomId))\<rparr>, {})"

definition on_sendMessage ::
  "handle \<Rightarrow> message_data \<Rightarrow> server \<Rightarrow> server \<times> (handle \<times> event) set" where
  "on_sendMessage h messageData s =
     (s, to_emit s h (md_chatId messageData) (NewMessage messageData))"

definition on_typing ::
  "handle \<Rightarrow> typing_data \<Rightarrow> server \<Rightarrow> server \<times> (handle \<times> event) set" where
  "on_typing h data s =
     (s, to_emit s h (td_chatId data)
           (UserTyping (socket_userId s h) (td_isTyping data)))"

definition on_disconnect :: "handle \<Rightarrow> server \<Rightarrow> server \<times> (handle \<times> event) set" where
  "on_disconnect h s =
     (let s' = s\<lparr>sockets := sockets s - {h}, rooms := (\<lambda>r. rooms s r - {h})\<rparr>
      in case socket_userId s h of
           None \<Rightarrow> (s', {})
         | Some u \<Rightarrow>
             if truthy u
             then (s'\<lparr>activeUsers := (activeUsers s')(u := None)\<rparr>,
                   broadcast_emit s' h (UserOffline u))
             else (s', {}))"

text \<open>The registry operations of the specification, read off the map.\<close>

definition join :: "user_id \<Rightarrow> handle \<Rightarrow> server \<Rightarrow> server" where
  "join u h s = fst (on_join h u s)"

definition leave :: "handle \<Rightarrow> server \<Rightarrow> server" where
  "leave h s = fst (on_disconnect h s)"

definition resolve :: "server \<Rightarrow> user_id \<Rightarrow> handle option" where
  "resolve s u = activeUsers s u"

definition isOnline :: "server \<Rightarrow> user_id \<Rightarrow> bool" where
  "isOnline s u \<longleftrightarrow> activeUsers s u \<noteq> None"


section \<open>The conversation key\<close>

text \<open>
  Both message routes compute \<^verbatim>\<open>[req.user._id, other].sort().join('_')\<close>. Without a
  comparator, \<^verbatim>\<open>sort\<close> compares the elements as strings, code unit by code unit, keeps
  the given order of equal elements and moves \<^verbatim>\<open>undefined\<close> to the end; \<^verbatim>\<open>join\<close> writes
  \<^verbatim>\<open>undefined\<close> as the empty string. An element is \<open>None\<close> when it is \<^verbatim>\<open>undefined\<close> (a
  request body without \<^verbatim>\<open>recipient\<close>), otherwise its string form.
\<close>

fun str_lt :: "string \<Rightarrow> string \<Rightarrow> bool" where
  "str_lt [] [] = False"
| "str_lt [] (y # ys) = True"
| "str_lt (x # xs) [] = False"
| "str_lt (x # xs) (y # ys) = (x < y \<or> (x = y \<and> str_lt xs ys))"

definition js_sort2 :: "string option \<Rightarrow> string option \<Rightarrow> string option list" where
  "js_sort2 a b =
     (case a of
        None \<Rightarrow> [b, a]
      | Some x \<Rightarrow>
          (case b of
             None \<Rightarrow> [a, b]
           | Some y \<Rightarrow> if str_lt y x then [b, a] else [a, b]))"

fun js_elem :: "string option \<Rightarrow> string" where
  "js_elem None = []"
| "js_elem (Some v) = v"

fun js_join :: "string \<Rightarrow> string option list \<Rightarrow> string" where
  "js_join sep [] = []"
| "js_join sep [x] = js_elem x"
| "js_join sep (x # y # ys) = js_elem x @ sep @ js_join sep (y # ys)"

definition chatId_js :: "string option \<Rightarrow> string option \<Rightarrow> string" where
  "chatId_js a b = js_join ''_'' (js_sort2 a b)"

definition chatId_of :: "user_id \<Rightarrow> user_id \<Rightarrow> string" where
  "chatId_of a b = chatId_js (Some a) (Some b)"


section \<open>The message collection\<close>

text \<open>
  A stored message document. Dates are milliseconds as integers. The collection is the
  list of its documents, a new document at the end.
\<close>

record message =
  msg_id :: nat
  sender :: user_id
  recipient :: user_id
  content :: string
  messageType :: string
  chatId :: string
  isRead :: bool
  readAt :: "int option"
  createdAt :: int

record draft =
  d_sender :: user_id
  d_recipient :: "string option"
  d_content :: "string option"
  d_messageType :: string
  d_chatId :: string

record body =
  b_recipient :: "string option"
  b_content :: "string option"
  b_messageType :: "string option"

datatype failure = ValidationError string | QueryError | StorageError

record chat_group =
  g_id :: string
  g_lastMessage :: message
  g_unreadCount :: nat

record chat_summary =
  cs_chatId :: string
  cs_otherUser :: user_id
  cs_lastMessage :: message
  cs_unreadCount :: nat

datatype payload =
    Message_body message
  | Messages_body "message list"
  | Chats_body "chat_summary list"
  | Count_body nat
  | Info_body string

type_synonym response = "nat \<times> payload"

definition server_error :: response where
  "server_error = (500, Info_body ''Server error'')"

text \<open>
  Modelled from the spec: the schema of the Message model (models/Message.js) is not
  among the sources. Following the specification, \<^verbatim>\<open>recipient\<close> and \<^verbatim>\<open>content\<close> are
  required fields whose absence is a validation error, a new message has
  \<^verbatim>\<open>isRead = false\<close> and no \<^verbatim>\<open>readAt\<close>, and \<^verbatim>\<open>createdAt\<close> is assigned when the message
  is persisted.
\<close>

definition validate :: "draft \<Rightarrow> string option" where
  "validate d =
     (if d_recipient d = None then Some ''recipient is required''
      else if d_content d = None then Some ''content is required''
      else None)"

text \<open>
  \<^verbatim>\<open>message.save()\<close>: validation first, then the write, which fails when the storage is
  not available (\<open>up\<close> false). The id of the new document and the clock are inputs.
\<close>

definition save ::
  "bool \<Rightarrow> message list \<Rightarrow> draft \<Rightarrow> nat \<Rightarrow> int \<Rightarrow> failure + (message list \<times> message)" where
  "save up coll d mid now =
     (case validate d of
        Some detail \<Rightarrow> Inl (ValidationError detail)
      | None \<Rightarrow>
          if \<not> up then Inl StorageError
          else
            (let m = \<lparr>msg_id = mid, sender = d_sender d, recipient = js_elem (d_recipient d),
                      content = js_elem (d_content d), messageType = d_messageType d,
                      chatId = d_chatId d, isRead = False, readAt = None,
                      createdAt = now\<rparr>
             in Inr (coll @ [m], m)))"

text \<open>
  The route \<^verbatim>\<open>POST /\<close>: every exception of the \<^verbatim>\<open>try\<close> block ends in the same answer.
  The populated sender and recipient of the answer are given by their ids.
\<close>

definition send ::
  "bool \<Rightarrow> message list \<Rightarrow> user_id \<Rightarrow> body \<Rightarrow> nat \<Rightarrow> int \<Rightarrow> message list \<times> response" where
  "send up coll me b mid now =
     (let recipient = b_recipient b;
          content = b_content b;
          messageType = (case b_messageType b of None \<Rightarrow> ''text'' | Some t \<Rightarrow> t);
          chatId = chatId_js (Some me) recipient;
          message = \<lparr>d_sender = me, d_recipient = recipient, d_content = content,
                      d_messageType = messageType, d_chatId = chatId\<rparr>
      in case save up coll message mid now of
           Inl e \<Rightarrow> (coll, server_error)
         | Inr (coll', m) \<Rightarrow> (coll', (201, Message_body m)))"

text \<open>
  JavaScript numbers. The arithmetic of the history route works on doubles. All numbers
  that occur there are integers or not finite, so a number is an integer that a double
  holds exactly, an infinity, or NaN (the sign of zero is not kept). \<open>round_double\<close>
  is the double nearest to an integer, ties to the even significand: every integer of
  magnitude below \<open>2 ^ 53\<close> is itself, a larger one keeps its 53 leading binary digits,
  and a result of \<open>2 ^ 1024\<close> or more is an infinity. Subtraction and multiplication
  round the exact result the same way.
\<close>

datatype jsnum = Num int | Pos_inf | Neg_inf | Not_a_number

function bitlen :: "int \<Rightarrow> nat" where
  "bitlen n = (if n \<le> 0 then 0 else Suc (bitlen (n div 2)))"
  by pat_completeness auto
termination
  by (relation "measure nat") auto

declare bitlen.simps [simp del]

definition round_double :: "int \<Rightarrow> jsnum" where
  "round_double n =
     (let a = \<bar>n\<bar>
      in if a < 2 ^ 53 then Num n
         else
           (let e = bitlen a - 53;
                q = a div 2 ^ e;
                r = a mod 2 ^ e;
                q' = (if 2 ^ e < 2 * r \<or> (2 * r = 2 ^ e \<and> odd q) then q + 1 else q);
                v = q' * 2 ^ e
            in if 2 ^ 1024 \<le> v then (if n < 0 then Neg_inf else Pos_inf)
               else Num (sgn n * v)))"

fun js_sign :: "jsnum \<Rightarrow> int" where
  "js_sign (Num a) = sgn a"
| "js_sign Pos_inf = 1"
| "js_sign Neg_inf = - 1"
| "js_sign Not_a_number = 0"

fun js_sub :: "jsnum \<Rightarrow> jsnum \<Rightarrow> jsnum" where
  "js_sub (Num a) (Num b) = round_double (a - b)"
| "js_sub Not_a_number y = Not_a_number"
| "js_sub x Not_a_number = Not_a_number"
| "js_sub Pos_inf Pos_inf = Not_a_number"
| "js_sub Neg_inf Neg_inf = Not_a_number"
| "js_sub Pos_inf y = Pos_inf"
| "js_sub Neg_inf y = Neg_inf"
| "js_sub (Num a) Pos_inf = Neg_inf"
| "js_sub (Num a) Neg_inf = Pos_inf"

fun js_mult :: "jsnum \<Rightarrow> jsnum \<Rightarrow> jsnum" where
  "js_mult (Num a) (Num b) = round_double (a * b)"
| "js_mult Not_a_number y = Not_a_number"
| "js_mult x Not_a_number = Not_a_number"
| "js_mult x y =
     (if js_sign x * js_sign y = 0 then Not_a_number
      else if 0 < js_sign x * js_sign y then Pos_inf else Neg_inf)"

definition js_safe :: "int \<Rightarrow> bool" where
  "js_safe n \<longleftrightarrow> \<bar>n\<bar> < 2 ^ 53"

text \<open>
  What the storage engine does with a sort on \<^verbatim>\<open>createdAt: -1\<close> is a parameter: a function
  that returns the documents it is given, newest first. How it orders documents with
  equal \<^verbatim>\<open>createdAt\<close> is up to the engine. Every request for a page of the history is a
  query of its own, and the engine need not order equal \<^verbatim>\<open>createdAt\<close> in one query as in
  another: the sort of the history is a family of such functions, one for each limit and
  skip. \<open>same_order\<close> says that the family orders a given list in one way. Two engines
  used for concrete runs: \<open>stable_desc\<close> keeps equal keys in the given order,
  \<open>rev_asc\<close> reverses them.
\<close>

definition sorts_desc :: "('a \<Rightarrow> int) \<Rightarrow> ('a list \<Rightarrow> 'a list) \<Rightarrow> bool" where
  "sorts_desc key srt \<longleftrightarrow>
     (\<forall>xs. mset (srt xs) = mset xs \<and> sorted_wrt (\<lambda>a b. key b \<le> key a) (srt xs))"

definition same_order :: "(jsnum \<Rightarrow> jsnum \<Rightarrow> 'a list \<Rightarrow> 'a list) \<Rightarrow> 'a list \<Rightarrow> bool" where
  "same_order hsrt xs \<longleftrightarrow> (\<forall>l s l' s'. hsrt l s xs = hsrt l' s' xs)"

definition stable_desc :: "('a \<Rightarrow> int) \<Rightarrow> 'a list \<Rightarrow> 'a list" where
  "stable_desc key xs = sort_key (\<lambda>x. - key x) xs"

definition rev_asc :: "('a \<Rightarrow> int) \<Rightarrow> 'a list \<Rightarrow> 'a list" where
  "rev_asc key xs = rev (sort_key key xs)"

text \<open>
  A find with sort, skip and limit: the engine sorts, then skips, then limits, in
  whatever order the query was built. The engine takes a limit and a skip only when they
  are integers of 64 bits, and rejects a negative skip; a limit of 0 is no limit, and a
  negative limit is taken by its absolute value.
\<close>

definition conversation :: "message list \<Rightarrow> string \<Rightarrow> message list" where
  "conversation coll chat = filter (\<lambda>m. chatId m = chat) coll"

definition apply_limit :: "int \<Rightarrow> 'a list \<Rightarrow> 'a list" where
  "apply_limit l xs = (if l = 0 then xs else take (nat \<bar>l\<bar>) xs)"

fun as_int64 :: "jsnum \<Rightarrow> int option" where
  "as_int64 (Num n) = (if - (2 ^ 63) \<le> n \<and> n < 2 ^ 63 then Some n else None)"
| "as_int64 x = None"

definition exec_find ::
  "(jsnum \<Rightarrow> jsnum \<Rightarrow> message list \<Rightarrow> message list) \<Rightarrow> bool \<Rightarrow> message list \<Rightarrow> string
     \<Rightarrow> jsnum \<Rightarrow> jsnum \<Rightarrow> failure + message list" where
  "exec_find hsrt up coll chat lim skp =
     (if \<not> up then Inl StorageError
      else
        (case as_int64 lim of
           None \<Rightarrow> Inl QueryError
         | Some l \<Rightarrow>
             (case as_int64 skp of
                None \<Rightarrow> Inl QueryError
              | Some s \<Rightarrow>
                  if s < 0 then Inl QueryError
                  else Inr (apply_limit l
                              (drop (nat s) (hsrt lim skp (conversation coll chat)))))))"

text \<open>
  The route \<^verbatim>\<open>GET /chat/:userId\<close>. A query parameter is \<open>None\<close> when it is missing and
  \<open>Some n\<close> when it is the decimal string of the integer \<open>n\<close>; the arithmetic of the
  route turns the string into the nearest double.
\<close>

definition history ::
  "(jsnum \<Rightarrow> jsnum \<Rightarrow> message list \<Rightarrow> message list) \<Rightarrow> bool \<Rightarrow> message list \<Rightarrow> user_id
     \<Rightarrow> user_id \<Rightarrow> int option \<Rightarrow> int option \<Rightarrow> response" where
  "history hsrt up coll me userId page_q limit_q =
     (let page = (case page_q of None \<Rightarrow> Num 1 | Some p \<Rightarrow> round_double p);
          limit = (case limit_q of None \<Rightarrow> Num 50 | Some l \<Rightarrow> round_double l);
          chatId = chatId_js (Some me) (Some userId)
      in case exec_find hsrt up coll chatId (js_mult limit (Num 1))
                (js_mult (js_sub page (Num 1)) limit) of
           Inl e \<Rightarrow> server_error
         | Inr messages \<Rightarrow> (200, Messages_body (rev messages)))"

definition messages_of :: "response \<Rightarrow> message list" where
  "messages_of r = (case snd r of Messages_body ms \<Rightarrow> ms | _ \<Rightarrow> [])"

text \<open>
  The route \<^verbatim>\<open>PUT /read/:chatId\<close>. \<open>updateMany_read\<close> is the update with its filter; its
  second component is the number of documents it modified, which the route does not use.
\<close>

definition unread_in :: "string \<Rightarrow> user_id \<Rightarrow> message \<Rightarrow> bool" where
  "unread_in chat reader m \<longleftrightarrow> chatId m = chat \<and> recipient m = reader \<and> isRead m = False"

definition updateMany_read ::
  "message list \<Rightarrow> string \<Rightarrow> user_id \<Rightarrow> int \<Rightarrow> message list \<times> nat" where
  "updateMany_read coll chat reader now =
     (map (\<lambda>m. if unread_in chat reader m then m\<lparr>isRead := True, readAt := Some now\<rparr> else m)
        coll,
      length (filter (unread_in chat reader) coll))"

definition markRead ::
  "bool \<Rightarrow> message list \<Rightarrow> string \<Rightarrow> user_id \<Rightarrow> int \<Rightarrow> message list \<times> response" where
  "markRead up coll chat me now =
     (if \<not> up then (coll, server_error)
      else (fst (updateMany_read coll chat me now),
            (200, Info_body ''Messages marked as read'')))"

text \<open>The route \<^verbatim>\<open>GET /unread/count\<close>.\<close>

definition unreadCount :: "bool \<Rightarrow> message list \<Rightarrow> user_id \<Rightarrow> response" where
  "unreadCount up coll me =
     (if \<not> up then server_error
      else (200, Count_body (length (filter (\<lambda>m. recipient m = me \<and> isRead m = False) coll))))"


section \<open>The conversation list\<close>

text \<open>
  The route \<^verbatim>\<open>GET /\<close> of the chat router: an aggregation of four stages, then one lookup
  per group. The group stage reads the sorted documents in order; the first document of
  a key opens its group and is its \<^verbatim>\<open>lastMessage\<close>, every document adds to the count.
  The engine's sort of the groups is a second parameter. A lookup that finds nothing
  leaves \<^verbatim>\<open>lastMessage\<close> null, and reading its sender throws. \<^verbatim>\<open>populate\<close> replaces the
  sender and the recipient of the message by their User documents, and by null when
  there is none (\<open>users\<close> is the set of ids that have a User document): the route reads
  \<^verbatim>\<open>lastMessage.sender._id\<close> first, and \<^verbatim>\<open>lastMessage.recipient._id\<close> when the sender is
  the requesting user, and reading \<^verbatim>\<open>_id\<close> of null throws. Any throw ends the request
  with status 500. A User document is given by its id.
\<close>

definition match_stage :: "user_id \<Rightarrow> message list \<Rightarrow> message list" where
  "match_stage me coll = filter (\<lambda>m. sender m = me \<or> recipient m = me) coll"

definition unread_inc :: "user_id \<Rightarrow> message \<Rightarrow> nat" where
  "unread_inc me m = (if recipient m = me \<and> isRead m = False then 1 else 0)"

fun group_add :: "user_id \<Rightarrow> message \<Rightarrow> chat_group list \<Rightarrow> chat_group list" where
  "group_add me m [] =
     [\<lparr>g_id = chatId m, g_lastMessage = m, g_unreadCount = unread_inc me m\<rparr>]"
| "group_add me m (g # gs) =
     (if g_id g = chatId m
      then g\<lparr>g_unreadCount := g_unreadCount g + unread_inc me m\<rparr> # gs
      else g # group_add me m gs)"

definition group_stage :: "user_id \<Rightarrow> message list \<Rightarrow> chat_group list" where
  "group_stage me ms = foldl (\<lambda>gs m. group_add me m gs) [] ms"

definition aggregate ::
  "(message list \<Rightarrow> message list) \<Rightarrow> (chat_group list \<Rightarrow> chat_group list) \<Rightarrow> user_id
     \<Rightarrow> message list \<Rightarrow> chat_group list" where
  "aggregate msrt gsrt me coll = gsrt (group_stage me (msrt (match_stage me coll)))"

definition findById :: "message list \<Rightarrow> nat \<Rightarrow> message option" where
  "findById coll i = find (\<lambda>m. msg_id m = i) coll"

definition to_chat ::
  "message list \<Rightarrow> user_id set \<Rightarrow> user_id \<Rightarrow> chat_group \<Rightarrow> chat_summary option" where
  "to_chat coll users me chat =
     (case findById coll (msg_id (g_lastMessage chat)) of
        None \<Rightarrow> None
      | Some lastMessage \<Rightarrow>
          if sender lastMessage \<notin> users then None
          else if sender lastMessage = me
          then (if recipient lastMessage \<notin> users then None
                else Some \<lparr>cs_chatId = g_id chat, cs_otherUser = recipient lastMessage,
                            cs_lastMessage = lastMessage,
                            cs_unreadCount = g_unreadCount chat\<rparr>)
          else Some \<lparr>cs_chatId = g_id chat, cs_otherUser = sender lastMessage,
                      cs_lastMessage = lastMessage, cs_unreadCount = g_unreadCount chat\<rparr>)"

definition listConversations ::
  "(message list \<Rightarrow> message list) \<Rightarrow> (chat_group list \<Rightarrow> chat_group list) \<Rightarrow> bool
     \<Rightarrow> message list \<Rightarrow> user_id set \<Rightarrow> user_id \<Rightarrow> response" where
  "listConversations msrt gsrt up coll users me =
     (if \<not> up then server_error
      else case those (map (to_chat coll users me) (aggregate msrt gsrt me coll)) of
             None \<Rightarrow> server_error
           | Some chats \<Rightarrow> (200, Chats_body chats))"

definition chats_of :: "response \<Rightarrow> chat_summary list" where
  "chats_of r = (case snd r of Chats_body cs \<Rightarrow> cs | _ \<Rightarrow> [])"


text \<open>
  For the statements about the group stage: the unread messages of a conversation that
  are addressed to a user, the relation between the documents read so far and the
  groups built from them, and what the lookup turns a group into when it finds the
  message.
\<close>

definition unread_for :: "user_id \<Rightarrow> message list \<Rightarrow> string \<Rightarrow> nat" where
  "unread_for me ms c = length (filter (\<lambda>m. chatId m = c \<and> recipient m = me \<and> \<not> isRead m) ms)"

definition groups_ok :: "user_id \<Rightarrow> message list \<Rightarrow> chat_group list \<Rightarrow> bool" where
  "groups_ok me ms gs \<longleftrightarrow>
     distinct (map g_id gs) \<and> set (map g_id gs) = chatId ` set ms \<and>
     (\<forall>g \<in> set gs. g_unreadCount g = unread_for me ms (g_id g) \<and>
                  find (\<lambda>m. chatId m = g_id g) ms = Some (g_lastMessage g))"

definition summary :: "user_id \<Rightarrow> chat_group \<Rightarrow> chat_summary" where
  "summary me g =
     \<lparr>cs_chatId = g_id g,
      cs_otherUser = (if sender (g_lastMessage g) = me then recipient (g_lastMessage g)
                      else sender (g_lastMessage g)),
      cs_lastMessage = g_lastMessage g, cs_unreadCount = g_unreadCount g\<rparr>"


section \<open>Sample data\<close>

text \<open>Two messages of the conversation of \<open>A\<close> and \<open>B\<close>, the second one later.\<close>

definition m1 :: message where
  "m1 = \<lparr>msg_id = 1, sender = ''A'', recipient = ''B'', content = ''one'',
          messageType = ''text'', chatId = ''A_B'', isRead = False, readAt = None,
          createdAt = 10\<rparr>"

definition m2 :: message where
  "m2 = \<lparr>msg_id = 2, sender = ''B'', recipient = ''A'', content = ''two'',
          messageType = ''text'', chatId = ''A_B'', isRead = False, readAt = None,
          createdAt = 20\<rparr>"


text \<open>
  A message of another conversation of \<open>A\<close>, and a log of two messages that \<open>A\<close> sends
  to \<open>B\<close> at the same time.
\<close>

definition m3 :: message where
  "m3 = \<lparr>msg_id = 3, sender = ''C'', recipient = ''A'', content = ''three'',
          messageType = ''text'', chatId = ''A_C'', isRead = False, readAt = None,
          createdAt = 15\<rparr>"

definition hello :: body where
  "hello = \<lparr>b_recipient = Some ''B'', b_content = Some ''hello'', b_messageType = None\<rparr>"

definition tie_log :: "message list" where
  "tie_log = fst (send True (fst (send True [] ''A'' hello 1 10)) ''A'' hello 2 10)"


text \<open>A log of one message that \<open>A\<close> sends to \<open>A\<close>.\<close>

definition memo :: body where
  "memo = \<lparr>b_recipient = Some ''A'', b_content = Some ''note'', b_messageType = None\<rparr>"

definition self_log :: "message list" where
  "self_log = fst (send True [] ''A'' memo 4 5)"


text \<open>
  An engine that orders equal \<^verbatim>\<open>createdAt\<close> in one way when nothing is skipped and in
  the other way otherwise.
\<close>

definition mixed_desc :: "jsnum \<Rightarrow> jsnum \<Rightarrow> message list \<Rightarrow> message list" where
  "mixed_desc l s = (if s = Num 0 then stable_desc createdAt else rev_asc createdAt)"


section \<open>Presence\<close>

lemma resolve_join: "resolve (join u h s) u' = (if u' = u then Some h else resolve s u')"
  by (simp add: resolve_def join_def on_join_def)

lemma socket_userId_join:
  "socket_userId (join u h s) h' = (if h' = h then Some u else socket_userId s h')"
  by (simp add: join_def on_join_def)

lemma resolve_leave:
  "resolve (leave h s) u' =
     (case socket_userId s h of
        None \<Rightarrow> resolve s u'
      | Some u \<Rightarrow> if truthy u \<and> u' = u then None else resolve s u')"
  by (simp add: resolve_def leave_def on_disconnect_def Let_def split: option.split)

text \<open>
  C1 (as stated): after \<open>join u h1\<close>, \<open>join u h2\<close> with \<open>h1 \<noteq> h2\<close>, the disconnect of
  \<open>h1\<close> would leave \<open>resolve u = Some h2\<close>. In the server the disconnect handler deletes
  the entry of \<^verbatim>\<open>socket.userId\<close> whatever handle is stored there, so the entry of the
  newer connection is gone.
\<close>

theorem presence_leave_superseded_counterexample:
  "''h1'' \<noteq> ''h2'' \<and>
   resolve (leave ''h1'' (join ''u'' ''h2'' (on_connection ''h2''
     (join ''u'' ''h1'' (on_connection ''h1'' server0))))) ''u'' \<noteq> Some ''h2''"
  by (simp add: resolve_leave resolve_join socket_userId_join truthy_def
      on_connection_def server0_def join_def on_join_def)

text \<open>
  C1 (amended): removal is keyed by the user id recorded on the disconnecting socket.
  For a non-empty user id \<open>u\<close>: after \<open>join u h1\<close> and \<open>join u h2\<close>, the disconnect of
  \<open>h1\<close> removes the entry of \<open>u\<close>, so \<open>resolve u\<close> is absent and \<open>u\<close> is no longer online;
  and after \<open>join u h\<close> followed by the disconnect of \<open>h\<close>, \<open>resolve u\<close> is absent.
\<close>

theorem presence_leave_by_userId:
  "u \<noteq> [] \<Longrightarrow>
     resolve (leave h1 (join u h2 (join u h1 s))) u = None \<and>
     \<not> isOnline (leave h1 (join u h2 (join u h1 s))) u \<and>
     resolve (leave h (join u h s)) u = None"
  by (simp add: resolve_leave socket_userId_join truthy_def isOnline_def
      flip: resolve_def)

theorem presence_leave_by_userId_witness:
  "''u'' \<noteq> [] \<and> resolve (leave ''h1'' (join ''u'' ''h2'' (join ''u'' ''h1'' server0))) ''u'' = None
   \<and> \<not> isOnline (leave ''h1'' (join ''u'' ''h2'' (join ''u'' ''h1'' server0))) ''u''
   \<and> resolve (leave ''h'' (join ''u'' ''h'' server0)) ''u'' = None"
  using presence_leave_by_userId [of "''u''" "''h1''" "''h2''" server0 "''h''"] by simp





section \<open>Relay\<close>

text \<open>
  C9: a \<^verbatim>\<open>sendMessage\<close> or \<^verbatim>\<open>typing\<close> event of connection \<open>h\<close> is delivered to exactly the
  members of the room other than \<open>h\<close>, so \<open>h\<close> never receives its own event; the typing
  payload carries \<^verbatim>\<open>socket.userId\<close> of the publisher, which after \<open>join u h\<close> is \<open>u\<close>, and
  its \<^verbatim>\<open>isTyping\<close> flag; a socket that joined a room is a member of it.
\<close>

theorem relay_excludes_sender:
  "((h', e) \<in> snd (on_sendMessage h d s) \<longleftrightarrow>
      h' \<in> rooms s (md_chatId d) \<and> h' \<noteq> h \<and> e = NewMessage d) \<and>
   ((h', e) \<in> snd (on_typing h t s) \<longleftrightarrow>
      h' \<in> rooms s (td_chatId t) \<and> h' \<noteq> h \<and>
      e = UserTyping (socket_userId s h) (td_isTyping t)) \<and>
   ((h', e) \<in> snd (on_typing h t (join u h s)) \<longleftrightarrow>
      h' \<in> rooms s (td_chatId t) \<and> h' \<noteq> h \<and> e = UserTyping (Some u) (td_isTyping t)) \<and>
   (h, e) \<notin> snd (on_sendMessage h d s) \<and> (h, e) \<notin> snd (on_typing h t s) \<and>
   h' \<in> rooms (fst (on_joinRoom h' r s)) r"
  by (auto simp: on_sendMessage_def on_typing_def to_emit_def join_def on_join_def
        on_joinRoom_def)


section \<open>Conversation key\<close>






section \<open>Creating a message\<close>

text \<open>
  C8 (as stated): a request without \<^verbatim>\<open>recipient\<close> would get a validation error that
  differs from a storage error. The route answers both with status 500 and the body
  \<^verbatim>\<open>{message: 'Server error'}\<close>.
\<close>

theorem send_missing_field_counterexample:
  "snd (send True [] ''A''
         \<lparr>b_recipient = None, b_content = Some ''hi'', b_messageType = None\<rparr> 1 10)
     = (500, Info_body ''Server error'') \<and>
   snd (send True [] ''A''
         \<lparr>b_recipient = None, b_content = Some ''hi'', b_messageType = None\<rparr> 1 10)
     = snd (send False [] ''A''
         \<lparr>b_recipient = Some ''B'', b_content = Some ''hi'', b_messageType = None\<rparr> 1 10)"
  by (simp add: send_def save_def validate_def server_error_def Let_def)

text \<open>
  C8 (amended): when the storage is available and \<^verbatim>\<open>recipient\<close> and \<^verbatim>\<open>content\<close> are
  present, the route appends the message (sender the requesting user, the given recipient
  and content, type \<^verbatim>\<open>text\<close> unless given, the conversation key, unread) and answers
  201 with it; in every other case, a storage failure and a missing field alike, the
  collection is unchanged and the answer is 500 with \<^verbatim>\<open>{message: 'Server error'}\<close>.
\<close>

theorem send_responses:
  "send up coll me b mid now =
     (if up \<and> b_recipient b \<noteq> None \<and> b_content b \<noteq> None
      then (coll @ [\<lparr>msg_id = mid, sender = me, recipient = js_elem (b_recipient b),
                      content = js_elem (b_content b),
                      messageType = (case b_messageType b of None \<Rightarrow> ''text'' | Some t \<Rightarrow> t),
                      chatId = chatId_of me (js_elem (b_recipient b)), isRead = False,
                      readAt = None, createdAt = now\<rparr>],
            (201, Message_body
                    \<lparr>msg_id = mid, sender = me, recipient = js_elem (b_recipient b),
                      content = js_elem (b_content b),
                      messageType = (case b_messageType b of None \<Rightarrow> ''text'' | Some t \<Rightarrow> t),
                      chatId = chatId_of me (js_elem (b_recipient b)), isRead = False,
                      readAt = None, createdAt = now\<rparr>))
      else (coll, (500, Info_body ''Server error'')))"
  by (auto simp: send_def save_def validate_def server_error_def Let_def chatId_of_def)


section \<open>Marking as read\<close>

lemma updateMany_read_none_left:
  "filter (unread_in chat reader) (fst (updateMany_read coll chat reader now)) = []"
  by (induction coll) (simp_all add: updateMany_read_def unread_in_def)

lemma updateMany_read_fixed:
  "filter (unread_in chat reader) coll = [] \<Longrightarrow>
   updateMany_read coll chat reader now = (coll, 0)"
  by (induction coll) (simp_all add: updateMany_read_def split: if_splits)

lemma updateMany_read_idem:
  "updateMany_read (fst (updateMany_read coll chat reader now)) chat reader now'
     = (fst (updateMany_read coll chat reader now), 0)"
  by (rule updateMany_read_fixed) (rule updateMany_read_none_left)

text \<open>
  C2 (as stated): the call would return the number of rows affected. The route answers
  with a fixed acknowledgement; here one row is affected and the answer is not the
  count 1.
\<close>

theorem markRead_returns_count_counterexample:
  "snd (updateMany_read [m1] ''A_B'' ''B'' 30) = 1 \<and>
   snd (markRead True [m1] ''A_B'' ''B'' 30) = (200, Info_body ''Messages marked as read'') \<and>
   snd (markRead True [m1] ''A_B'' ''B'' 30) \<noteq> (200, Count_body 1)"
  by (simp add: markRead_def updateMany_read_def unread_in_def m1_def)

text \<open>
  C2 (amended): with the storage available, marking a conversation as read for a reader
  sets \<^verbatim>\<open>isRead = true\<close> and \<^verbatim>\<open>readAt = now\<close> on exactly the messages of that conversation
  addressed to the reader with \<^verbatim>\<open>isRead = false\<close> and leaves every other message as it
  is; the number of rows the update affects is the number of those messages; the route
  answers with the fixed acknowledgement, not with that number. An immediately repeated
  call, at whatever time, affects 0 rows and leaves the whole collection, so every
  \<^verbatim>\<open>readAt\<close> already set, unchanged.
\<close>

theorem markRead_idempotent:
  "markRead True coll chat reader now =
     (fst (updateMany_read coll chat reader now),
      (200, Info_body ''Messages marked as read'')) \<and>
   length (fst (updateMany_read coll chat reader now)) = length coll \<and>
   (\<forall>i < length coll.
      fst (updateMany_read coll chat reader now) ! i =
        (if chatId (coll ! i) = chat \<and> recipient (coll ! i) = reader \<and> \<not> isRead (coll ! i)
         then (coll ! i)\<lparr>isRead := True, readAt := Some now\<rparr> else coll ! i)) \<and>
   snd (updateMany_read coll chat reader now) =
     card {i. i < length coll \<and> chatId (coll ! i) = chat \<and> recipient (coll ! i) = reader
              \<and> \<not> isRead (coll ! i)} \<and>
   updateMany_read (fst (updateMany_read coll chat reader now)) chat reader now' =
     (fst (updateMany_read coll chat reader now), 0) \<and>
   markRead True (fst (markRead True coll chat reader now)) chat reader now' =
     (fst (markRead True coll chat reader now),
      (200, Info_body ''Messages marked as read''))"
proof -
  have a: "snd (updateMany_read coll chat reader now) =
     card {i. i < length coll \<and> chatId (coll ! i) = chat \<and> recipient (coll ! i) = reader
              \<and> \<not> isRead (coll ! i)}"
    by (simp add: updateMany_read_def length_filter_conv_card unread_in_def)
  have b: "\<forall>i < length coll.
      fst (updateMany_read coll chat reader now) ! i =
        (if chatId (coll ! i) = chat \<and> recipient (coll ! i) = reader \<and> \<not> isRead (coll ! i)
         then (coll ! i)\<lparr>isRead := True, readAt := Some now\<rparr> else coll ! i)"
    by (simp add: updateMany_read_def unread_in_def)
  show ?thesis
    using a b by (simp add: markRead_def updateMany_read_idem) (simp add: updateMany_read_def)
qed

theorem markRead_idempotent_witness:
  "markRead True [m1, m2] ''A_B'' ''B'' 30 =
     ([m1\<lparr>isRead := True, readAt := Some 30\<rparr>, m2],
      (200, Info_body ''Messages marked as read'')) \<and>
   snd (updateMany_read [m1, m2] ''A_B'' ''B'' 30) = 1 \<and>
   updateMany_read (fst (updateMany_read [m1, m2] ''A_B'' ''B'' 30)) ''A_B'' ''B'' 40 =
     ([m1\<lparr>isRead := True, readAt := Some 30\<rparr>, m2], 0)"
  using markRead_idempotent [of "[m1, m2]" "''A_B''" "''B''" 30 40]
  by (simp add: updateMany_read_def unread_in_def m1_def m2_def)


section \<open>Ordering and ties\<close>

lemma sorts_desc_stable_desc: "sorts_desc key (stable_desc key)"
  unfolding sorts_desc_def stable_desc_def
proof (intro allI conjI)
  fix xs :: "'a list"
  show "mset (sort_key (\<lambda>x. - key x) xs) = mset xs" by simp
  have "sorted (map (\<lambda>x. - key x) (sort_key (\<lambda>x. - key x) xs))" by (rule sorted_sort_key)
  then show "sorted_wrt (\<lambda>a b. key b \<le> key a) (sort_key (\<lambda>x. - key x) xs)"
    by (simp add: sorted_map)
qed

lemma sorts_desc_rev_asc: "sorts_desc key (rev_asc key)"
  unfolding sorts_desc_def rev_asc_def
proof (intro allI conjI)
  fix xs :: "'a list"
  show "mset (rev (sort_key key xs)) = mset xs" by simp
  have "sorted (map key (sort_key key xs))" by (rule sorted_sort_key)
  then show "sorted_wrt (\<lambda>a b. key b \<le> key a) (rev (sort_key key xs))"
    by (simp add: sorted_map sorted_wrt_rev)
qed

lemma set_msrt: "sorts_desc key srt \<Longrightarrow> set (srt xs) = set xs"
  by (metis sorts_desc_def set_mset_mset)

lemma sorted_msrt: "sorts_desc key srt \<Longrightarrow> sorted_wrt (\<lambda>a b. key b \<le> key a) (srt xs)"
  by (simp add: sorts_desc_def)

lemma mset_msrt: "sorts_desc key srt \<Longrightarrow> mset (srt xs) = mset xs"
  by (simp add: sorts_desc_def)

lemma length_filter_mset:
  "mset xs = mset ys \<Longrightarrow> length (filter P xs) = length (filter P ys)"
  by (metis mset_filter size_mset)

lemma distinct_map_mset:
  "mset xs = mset ys \<Longrightarrow> distinct (map f xs) = distinct (map f ys)"
  by (metis mset_map mset_eq_imp_distinct_iff)

lemma strict_desc:
  "sorted_wrt (\<lambda>a b. key b \<le> key a) xs \<Longrightarrow> distinct (map key xs) \<Longrightarrow>
   sorted_wrt (\<lambda>a b. key b < (key a :: int)) xs"
  by (induction xs) (auto simp: less_le intro: rev_image_eqI)

lemma desc_unique:
  assumes "sorted_wrt (\<lambda>a b. key b \<le> (key a :: int)) xs"
    and "sorted_wrt (\<lambda>a b. key b \<le> key a) ys"
    and "mset xs = mset ys" and "distinct (map key xs)"
  shows "xs = ys"
proof -
  have dy: "distinct (map key ys)"
    using assms(3,4) distinct_map_mset by blast
  have sx: "sorted (rev (map key xs))" and sy: "sorted (rev (map key ys))"
    using assms(1,2) by (simp_all add: sorted_wrt_rev sorted_wrt_map flip: rev_map)
  have "set (rev (map key xs)) = set (rev (map key ys))"
    using assms(3) by (metis mset_eq_setD set_map set_rev)
  with sx sy assms(4) dy have "rev (map key xs) = rev (map key ys)"
    by (intro sorted_distinct_set_unique) simp_all
  then have eq: "map key xs = map key ys" by simp
  have "inj_on key (set xs \<union> set ys)"
    using assms(3,4) by (metis distinct_map mset_eq_setD sup.idem)
  with eq show ?thesis by (rule map_inj_on)
qed

lemma sorts_desc_unique:
  "sorts_desc key s1 \<Longrightarrow> sorts_desc key s2 \<Longrightarrow> distinct (map key xs) \<Longrightarrow> s1 xs = s2 xs"
  by (rule desc_unique [where key = key])
     (simp_all add: sorted_msrt mset_msrt distinct_map_mset [of "s1 xs" xs key])

lemma same_order_distinct:
  "\<forall>l s. sorts_desc key (hsrt l s) \<Longrightarrow> distinct (map key xs) \<Longrightarrow> same_order hsrt xs"
  unfolding same_order_def by (blast intro: sorts_desc_unique)

lemma same_order_const: "same_order (\<lambda>l s. srt) xs"
  by (simp add: same_order_def)


section \<open>Numbers of the history route\<close>

lemma round_double_safe: "js_safe n \<Longrightarrow> round_double n = Num n"
  by (simp add: js_safe_def round_double_def)

lemma as_int64_safe: "js_safe n \<Longrightarrow> as_int64 (Num n) = Some n"
  by (simp add: js_safe_def) linarith

lemma js_safe_small [simp]: "js_safe 0" "js_safe 1" "js_safe 50"
  by (simp_all add: js_safe_def)

lemma js_safe_pos: "0 \<le> n \<Longrightarrow> n < 2 ^ 53 \<Longrightarrow> js_safe n"
  by (simp add: js_safe_def)


section \<open>History\<close>

lemma pages_concat:
  "concat (map (\<lambda>q. rev (take L (drop ((q - 1) * L) xs))) (rev [1..<Suc k]))
     = rev (take (k * L) xs)"
proof (induction k)
  case 0
  then show ?case by simp
next
  case (Suc k)
  have "take (k * L + L) xs = take (k * L) xs @ take L (drop (k * L) xs)"
    by (rule take_add)
  moreover have "Suc k * L = k * L + L" by simp
  ultimately have "take (Suc k * L) xs = take (k * L) xs @ take L (drop (k * L) xs)"
    by (simp only:)
  with Suc show ?case by (simp del: mult_Suc)
qed

text \<open>
  A request that gives both parameters, in the range that doubles hold exactly: the query
  is run with the limit and the skip \<open>(p - 1) * l\<close> computed from the given values.
\<close>

lemma history_given:
  assumes "js_safe p" "js_safe (p - 1)" "js_safe l" "js_safe ((p - 1) * l)"
  shows "history hsrt up coll me other (Some p) (Some l) =
     (if \<not> up \<or> (p - 1) * l < 0 then server_error
      else (200, Messages_body (rev (apply_limit l (drop (nat ((p - 1) * l))
              (hsrt (Num l) (Num ((p - 1) * l)) (conversation coll (chatId_of me other))))))))"
proof -
  have lim: "js_mult (round_double l) (Num 1) = Num l"
    using assms(3) by (simp add: round_double_safe)
  have skp: "js_mult (js_sub (round_double p) (Num 1)) (round_double l) = Num ((p - 1) * l)"
    using assms by (simp add: round_double_safe)
  show ?thesis
    unfolding history_def Let_def option.case lim skp exec_find_def chatId_of_def
    by (simp add: as_int64_safe [OF assms(3)] as_int64_safe [OF assms(4)]
          del: as_int64.simps)
qed

lemma history_one_page:
  assumes "0 < p" "0 < L" "p < 2 ^ 53" "L < 2 ^ 53" "(p - 1) * L < 2 ^ 53"
  shows "history hsrt True coll me other (Some p) (Some L) =
     (200, Messages_body (rev (take (nat L) (drop ((nat p - 1) * nat L)
        (hsrt (Num L) (Num ((p - 1) * L)) (conversation coll (chatId_of me other)))))))"
proof -
  have nn: "0 \<le> (p - 1) * L"
    using assms(1,2) by simp
  have sk: "nat ((p - 1) * L) = (nat p - 1) * nat L"
    using assms(1,2) by (simp add: nat_mult_distrib nat_diff_distrib')
  have s: "js_safe p" "js_safe (p - 1)" "js_safe L" "js_safe ((p - 1) * L)"
    using assms nn by (simp_all add: js_safe_pos)
  show ?thesis
    using assms(2) nn by (simp add: history_given [OF s] apply_limit_def sk)
qed

lemma sorted_desc_sub:
  "sorted_wrt (\<lambda>a b. key b \<le> key a) xs \<Longrightarrow>
   sorted_wrt (\<lambda>a b. key a \<le> (key b :: int)) (rev (take n (drop k xs)))"
  by (simp add: sorted_wrt_rev sorted_wrt_take sorted_wrt_drop)

lemma page_bounds:
  assumes "1 \<le> q" "q \<le> k" "0 < L" "int k * L < B"
  shows "int q < B" and "(int q - 1) * L < B"
proof -
  have "int q * L \<le> int k * L"
    using assms(2,3) by (simp add: mult_right_mono)
  then have a: "int q * L < B" using assms(4) by simp
  have "int q * 1 \<le> int q * L"
    using assms(3) by (intro mult_left_mono) simp_all
  with a show "int q < B" by simp
  have "(int q - 1) * L \<le> int q * L"
    using assms(3) by (intro mult_right_mono) simp_all
  with a show "(int q - 1) * L < B" by simp
qed

lemma messages_of_history_cases:
  "messages_of (history hsrt up coll me other p l) = [] \<or>
   (\<exists>n k a b. messages_of (history hsrt up coll me other p l) =
      rev (take n (drop k (hsrt a b (conversation coll (chatId_of me other))))))"
proof -
  define page where "page = (case p of None \<Rightarrow> Num 1 | Some q \<Rightarrow> round_double q)"
  define limit where "limit = (case l of None \<Rightarrow> Num 50 | Some q \<Rightarrow> round_double q)"
  define a where "a = js_mult limit (Num 1)"
  define b where "b = js_mult (js_sub page (Num 1)) limit"
  let ?xs = "hsrt a b (conversation coll (chatId_of me other))"
  have al: "\<exists>n. apply_limit i xs = take n xs" for i :: int and xs :: "message list"
    by (cases "i = 0") (auto simp: apply_limit_def intro: exI [of _ "length xs"])
  have "history hsrt up coll me other p l = server_error \<or>
        (\<exists>i j. history hsrt up coll me other p l =
          (200, Messages_body (rev (apply_limit i (drop j ?xs)))))"
    by (auto simp: history_def exec_find_def Let_def page_def limit_def a_def b_def
          chatId_of_def split: option.split)
  then show ?thesis
  proof
    assume "history hsrt up coll me other p l = server_error"
    then show ?thesis by (simp add: messages_of_def server_error_def)
  next
    assume "\<exists>i j. history hsrt up coll me other p l =
          (200, Messages_body (rev (apply_limit i (drop j ?xs))))"
    then obtain i j where h: "history hsrt up coll me other p l =
          (200, Messages_body (rev (apply_limit i (drop j ?xs))))" by blast
    from al obtain n where "apply_limit i (drop j ?xs) = take n (drop j ?xs)" by blast
    with h have "messages_of (history hsrt up coll me other p l) = rev (take n (drop j ?xs))"
      by (simp add: messages_of_def)
    then show ?thesis by blast
  qed
qed




lemma tie_log_eq:
  "tie_log =
     [\<lparr>msg_id = 1, sender = ''A'', recipient = ''B'', content = ''hello'',
        messageType = ''text'', chatId = ''A_B'', isRead = False, readAt = None,
        createdAt = 10\<rparr>,
      \<lparr>msg_id = 2, sender = ''A'', recipient = ''B'', content = ''hello'',
        messageType = ''text'', chatId = ''A_B'', isRead = False, readAt = None,
        createdAt = 10\<rparr>]"
  by (simp add: tie_log_def send_def save_def validate_def hello_def Let_def
        chatId_js_def js_sort2_def)

text \<open>
  Without the condition on the order of equal \<^verbatim>\<open>createdAt\<close> the pages need not fit
  together: with an engine that sorts every query descending but orders the two messages
  of the same time differently from one query to the next, pages 2 and 1 of size 1 both
  hold message 1.
\<close>

lemma history_pages_mixed_order:
  "(\<forall>l s. sorts_desc createdAt (mixed_desc l s)) \<and>
   map msg_id (messages_of (history mixed_desc True tie_log ''A'' ''B'' (Some 2) (Some 1)) @
               messages_of (history mixed_desc True tie_log ''A'' ''B'' (Some 1) (Some 1)))
     = [1, 1]"
  by (simp add: mixed_desc_def sorts_desc_stable_desc sorts_desc_rev_asc tie_log_eq history_def
        exec_find_def conversation_def messages_of_def chatId_js_def js_sort2_def
        apply_limit_def stable_desc_def rev_asc_def round_double_safe js_safe_def)

text \<open>
  C3 (as stated): the pages 1, 2 in this order would give the newest messages in
  ascending order. Page 1 holds the newest message and page 2 the one before, so the
  pages put together in the order 1, 2 are not ascending.
\<close>

theorem history_pages_in_order_counterexample:
  "messages_of (history (\<lambda>l s. stable_desc createdAt) True [m1, m2] ''A'' ''B''
      (Some 1) (Some 1)) @
   messages_of (history (\<lambda>l s. stable_desc createdAt) True [m1, m2] ''A'' ''B''
      (Some 2) (Some 1))
     = [m2, m1] \<and> createdAt m1 < createdAt m2 \<and>
   \<not> sorted_wrt (\<lambda>a b. createdAt a \<le> createdAt b)
      (messages_of (history (\<lambda>l s. stable_desc createdAt) True [m1, m2] ''A'' ''B''
         (Some 1) (Some 1)) @
       messages_of (history (\<lambda>l s. stable_desc createdAt) True [m1, m2] ''A'' ''B''
         (Some 2) (Some 1)))"
  by (simp add: history_def exec_find_def conversation_def m1_def m2_def messages_of_def
        chatId_js_def js_sort2_def apply_limit_def stable_desc_def round_double_safe js_safe_def)

text \<open>
  C3 (amended): with the storage available, an engine that sorts every query by
  \<^verbatim>\<open>createdAt\<close> descending, and a positive page \<open>p\<close> and a positive limit \<open>L\<close> such that
  \<open>p\<close>, \<open>L\<close> and \<open>(p - 1) * L\<close> are below \<open>2 ^ 53\<close>: the answer is 200 with the \<open>L\<close>
  messages that the sorted conversation holds after the first \<open>(p - 1) * L\<close>, oldest
  first, so the page holds at most \<open>L\<close> messages, all of the conversation, in ascending
  \<^verbatim>\<open>createdAt\<close> order, and page 1 is the \<open>L\<close> newest messages, oldest first. When moreover
  the messages of the conversation have pairwise different \<^verbatim>\<open>createdAt\<close>, or the
  engine orders the conversation in the same way in every page query, and \<open>k * L\<close> is
  below \<open>2 ^ 53\<close>: the pages \<open>k, k - 1, \<dots>, 1\<close> put together in this order, the highest
  page first, are the \<open>k * L\<close> newest messages of the conversation (all of them when there
  are fewer) in ascending order, each once.
\<close>

theorem history_pages:
  assumes srt: "\<forall>l s. sorts_desc createdAt (hsrt l s)" and p: "0 < p" and L: "0 < L"
    and bp: "p < 2 ^ 53" and bL: "L < 2 ^ 53" and bs: "(p - 1) * L < 2 ^ 53"
  shows "history hsrt True coll me other (Some p) (Some L) =
      (200, Messages_body (rev (take (nat L) (drop (nat ((p - 1) * L))
         (hsrt (Num L) (Num ((p - 1) * L)) (conversation coll (chatId_of me other))))))) \<and>
    length (messages_of (history hsrt True coll me other (Some p) (Some L))) \<le> nat L \<and>
    (\<forall>m \<in> set (messages_of (history hsrt True coll me other (Some p) (Some L))).
        m \<in> set coll \<and> chatId m = chatId_of me other) \<and>
    sorted_wrt (\<lambda>a b. createdAt a \<le> createdAt b)
      (messages_of (history hsrt True coll me other (Some p) (Some L))) \<and>
    history hsrt True coll me other (Some 1) (Some L) =
      (200, Messages_body (rev (take (nat L)
         (hsrt (Num L) (Num 0) (conversation coll (chatId_of me other)))))) \<and>
    ((distinct (map createdAt (conversation coll (chatId_of me other))) \<or>
      same_order hsrt (conversation coll (chatId_of me other))) \<and> int k * L < 2 ^ 53 \<longrightarrow>
       concat (map (\<lambda>q. messages_of (history hsrt True coll me other (Some (int q)) (Some L)))
                 (rev [1..<Suc k])) =
         rev (take (k * nat L) (hsrt (Num L) (Num 0) (conversation coll (chatId_of me other)))) \<and>
       sorted_wrt (\<lambda>a b. createdAt a \<le> createdAt b)
         (rev (take (k * nat L)
            (hsrt (Num L) (Num 0) (conversation coll (chatId_of me other))))))"
proof -
  let ?conv = "conversation coll (chatId_of me other)"
  let ?xs = "hsrt (Num L) (Num ((p - 1) * L)) ?conv"
  let ?ys = "hsrt (Num L) (Num 0) ?conv"
  have sd: "sorts_desc createdAt (hsrt a b)" for a b
    using srt by simp
  have sk: "nat ((p - 1) * L) = (nat p - 1) * nat L"
    using p L by (simp add: nat_mult_distrib nat_diff_distrib')
  have h: "history hsrt True coll me other (Some p) (Some L) =
      (200, Messages_body (rev (take (nat L) (drop (nat ((p - 1) * L)) ?xs))))"
    using history_one_page [OF p L bp bL bs] by (simp add: sk)
  have pg: "messages_of (history hsrt True coll me other (Some p) (Some L)) =
      rev (take (nat L) (drop (nat ((p - 1) * L)) ?xs))"
    by (simp add: h messages_of_def)
  have sub: "set (take (nat L) (drop (nat ((p - 1) * L)) ?xs)) \<subseteq> set ?xs"
    by (meson set_take_subset set_drop_subset subset_trans)
  have mem: "set ?xs = set ?conv"
    using sd by (rule set_msrt)
  have 1: "length (messages_of (history hsrt True coll me other (Some p) (Some L))) \<le> nat L"
    by (simp add: pg)
  have 2: "\<forall>m \<in> set (messages_of (history hsrt True coll me other (Some p) (Some L))).
        m \<in> set coll \<and> chatId m = chatId_of me other"
    using sub mem by (auto simp: pg conversation_def)
  have 3: "sorted_wrt (\<lambda>a b. createdAt a \<le> createdAt b)
      (messages_of (history hsrt True coll me other (Some p) (Some L)))"
    unfolding pg by (rule sorted_desc_sub) (rule sorted_msrt [OF sd])
  have 4: "history hsrt True coll me other (Some 1) (Some L) =
      (200, Messages_body (rev (take (nat L) ?ys)))"
    using L bL by (simp add: history_one_page)
  have 6: "sorted_wrt (\<lambda>a b. createdAt a \<le> createdAt b) (rev (take (k * nat L) ?ys))"
    using sorted_desc_sub [OF sorted_msrt [OF sd], of "k * nat L" 0 "Num L" "Num 0" ?conv]
    by simp
  have 5: "concat (map (\<lambda>q. messages_of
        (history hsrt True coll me other (Some (int q)) (Some L))) (rev [1..<Suc k]))
      = rev (take (k * nat L) ?ys)"
    if c: "distinct (map createdAt ?conv) \<or> same_order hsrt ?conv" and bk: "int k * L < 2 ^ 53"
  proof -
    from c have "same_order hsrt ?conv"
      using same_order_distinct [OF srt] by blast
    then have same: "hsrt (Num L) (Num ((int q - 1) * L)) ?conv = ?ys" for q :: nat
      by (simp add: same_order_def)
    have pgn: "messages_of (history hsrt True coll me other (Some (int q)) (Some L)) =
        rev (take (nat L) (drop ((q - 1) * nat L) ?ys))" if q: "1 \<le> q" "q \<le> k" for q :: nat
    proof -
      have "0 < int q" using q by simp
      from history_one_page [OF this L page_bounds(1) [OF q L bk] bL page_bounds(2) [OF q L bk]]
      show ?thesis by (simp add: messages_of_def same [of q])
    qed
    have "map (\<lambda>q. messages_of (history hsrt True coll me other (Some (int q)) (Some L)))
              (rev [1..<Suc k]) =
          map (\<lambda>q. rev (take (nat L) (drop ((q - 1) * nat L) ?ys))) (rev [1..<Suc k])"
      by (rule map_cong) (auto simp: pgn)
    then show ?thesis by (simp only: pages_concat)
  qed
  show ?thesis using h 1 2 3 4 5 6 by blast
qed

theorem history_pages_witness:
  "(\<forall>l s. sorts_desc createdAt ((\<lambda>l s. stable_desc createdAt) l s)) \<and>
   (0::int) < 2 \<and> (0::int) < 1 \<and> (2::int) < 2 ^ 53 \<and> (1::int) < 2 ^ 53 \<and>
   ((2::int) - 1) * 1 < 2 ^ 53 \<and>
   distinct (map createdAt (conversation [m1, m2] (chatId_of ''A'' ''B''))) \<and>
   int 2 * 1 < 2 ^ 53 \<and>
   history (\<lambda>l s. stable_desc createdAt) True [m1, m2] ''A'' ''B'' (Some 2) (Some 1)
     = (200, Messages_body [m1]) \<and>
   history (\<lambda>l s. stable_desc createdAt) True [m1, m2] ''A'' ''B'' (Some 1) (Some 1)
     = (200, Messages_body [m2]) \<and>
   concat (map (\<lambda>q. messages_of
       (history (\<lambda>l s. stable_desc createdAt) True [m1, m2] ''A'' ''B''
          (Some (int q)) (Some 1)))
     (rev [1..<Suc 2])) = [m1, m2]"
proof -
  have e: "\<forall>l s. sorts_desc createdAt ((\<lambda>l s. stable_desc createdAt) (l :: jsnum) (s :: jsnum))"
    by (simp add: sorts_desc_stable_desc)
  have c: "conversation [m1, m2] (chatId_of ''A'' ''B'') = [m1, m2]"
    by (simp add: conversation_def chatId_of_def chatId_js_def js_sort2_def m1_def m2_def)
  have o: "stable_desc createdAt [m1, m2] = [m2, m1]"
    by (simp add: stable_desc_def m1_def m2_def)
  have d: "distinct (map createdAt [m1, m2])"
    by (simp add: m1_def m2_def)
  show ?thesis
    using history_pages [OF e, of 2 1 "[m1, m2]" "''A''" "''B''" 2] e d
    by (simp add: c o)
qed


section \<open>The group stage\<close>

lemma find_snoc:
  "find P (xs @ [x]) = (case find P xs of Some y \<Rightarrow> Some y | None \<Rightarrow> if P x then Some x else None)"
  by (induction xs) auto

lemma find_None_iff': "find P xs = None \<longleftrightarrow> (\<forall>x \<in> set xs. \<not> P x)"
  by (induction xs) auto

lemma find_Some_member: "find P xs = Some x \<Longrightarrow> x \<in> set xs \<and> P x"
  by (induction xs) (auto split: if_splits)

lemma find_sorted_first:
  "sorted_wrt R xs \<Longrightarrow> find P xs = Some x \<Longrightarrow> y \<in> set xs \<Longrightarrow> P y \<Longrightarrow> y = x \<or> R x y"
  by (induction xs) (auto split: if_splits)

lemma g_id_group_add:
  "map g_id (group_add me m gs) =
     (if chatId m \<in> set (map g_id gs) then map g_id gs else map g_id gs @ [chatId m])"
  by (induction gs) auto

lemma in_group_add:
  "distinct (map g_id gs) \<Longrightarrow> g' \<in> set (group_add me m gs) \<Longrightarrow>
     (g' \<in> set gs \<and> g_id g' \<noteq> chatId m) \<or>
     (\<exists>g \<in> set gs. g_id g = chatId m \<and>
         g' = g\<lparr>g_unreadCount := g_unreadCount g + unread_inc me m\<rparr>) \<or>
     (chatId m \<notin> set (map g_id gs) \<and>
         g' = \<lparr>g_id = chatId m, g_lastMessage = m, g_unreadCount = unread_inc me m\<rparr>)"
proof (induction gs)
  case Nil
  then show ?case by simp
next
  case (Cons g gs)
  show ?case
  proof (cases "g_id g = chatId m")
    case True
    with Cons.prems show ?thesis by (auto simp: image_iff)
  next
    case False
    with Cons show ?thesis by auto
  qed
qed

lemma unread_for_snoc:
  "unread_for me (ms @ [m]) c = unread_for me ms c + (if chatId m = c then unread_inc me m else 0)"
  by (simp add: unread_for_def unread_inc_def)

lemma groups_ok_step:
  assumes "groups_ok me ms gs"
  shows "groups_ok me (ms @ [m]) (group_add me m gs)"
proof -
  from assms have d: "distinct (map g_id gs)" and s: "set (map g_id gs) = chatId ` set ms"
    and a: "\<And>g. g \<in> set gs \<Longrightarrow> g_unreadCount g = unread_for me ms (g_id g) \<and>
                  find (\<lambda>m. chatId m = g_id g) ms = Some (g_lastMessage g)"
    by (auto simp: groups_ok_def)
  have 1: "distinct (map g_id (group_add me m gs))"
    using d by (simp add: g_id_group_add)
  have 2: "set (map g_id (group_add me m gs)) = chatId ` set (ms @ [m])"
    using s by (auto simp: g_id_group_add)
  have 3: "g_unreadCount g' = unread_for me (ms @ [m]) (g_id g') \<and>
           find (\<lambda>x. chatId x = g_id g') (ms @ [m]) = Some (g_lastMessage g')"
    if "g' \<in> set (group_add me m gs)" for g'
  proof -
    from in_group_add [OF d that] consider
      (old) "g' \<in> set gs" "g_id g' \<noteq> chatId m"
      | (upd) g where "g \<in> set gs" "g_id g = chatId m"
          "g' = g\<lparr>g_unreadCount := g_unreadCount g + unread_inc me m\<rparr>"
      | (new) "chatId m \<notin> set (map g_id gs)"
          "g' = \<lparr>g_id = chatId m, g_lastMessage = m, g_unreadCount = unread_inc me m\<rparr>"
      by blast
    then show ?thesis
    proof cases
      case old
      with a [of g'] show ?thesis by (simp add: unread_for_snoc find_snoc)
    next
      case upd
      with a [of g] show ?thesis by (simp add: unread_for_snoc find_snoc)
    next
      case new
      then have "chatId m \<notin> chatId ` set ms" using s by simp
      then have "\<forall>x \<in> set ms. chatId x \<noteq> chatId m" by (metis imageI)
      then have "find (\<lambda>x. chatId x = chatId m) ms = None" "unread_for me ms (chatId m) = 0"
        by (auto simp: find_None_iff' unread_for_def)
      with new show ?thesis by (simp add: unread_for_snoc find_snoc)
    qed
  qed
  show ?thesis unfolding groups_ok_def using 1 2 3 by blast
qed

lemma groups_ok_group_stage: "groups_ok me ms (group_stage me ms)"
proof (induction ms rule: rev_induct)
  case Nil
  then show ?case by (simp add: groups_ok_def group_stage_def)
next
  case (snoc m ms)
  then show ?case using groups_ok_step [of me ms "group_stage me ms" m]
    by (simp add: group_stage_def)
qed

lemma group_keys_distinct:
  assumes "groups_ok me ms gs" and "distinct (map createdAt ms)"
  shows "distinct (map (\<lambda>g. createdAt (g_lastMessage g)) gs)"
proof -
  from assms(1) have d: "distinct (map g_id gs)"
    and f: "\<And>g. g \<in> set gs \<Longrightarrow> find (\<lambda>m. chatId m = g_id g) ms = Some (g_lastMessage g)"
    by (auto simp: groups_ok_def)
  have inj: "inj_on createdAt (set ms)" and dm: "distinct ms"
    using assms(2) by (simp_all add: distinct_map)
  have "inj_on (\<lambda>g. createdAt (g_lastMessage g)) (set gs)"
  proof (rule inj_onI)
    fix x y assume x: "x \<in> set gs" and y: "y \<in> set gs"
      and e: "createdAt (g_lastMessage x) = createdAt (g_lastMessage y)"
    from find_Some_member [OF f [OF x]] find_Some_member [OF f [OF y]]
    have mx: "g_lastMessage x \<in> set ms" "chatId (g_lastMessage x) = g_id x"
      and my: "g_lastMessage y \<in> set ms" "chatId (g_lastMessage y) = g_id y" by auto
    from inj e mx(1) my(1) have "g_lastMessage x = g_lastMessage y" by (rule inj_onD)
    with mx(2) my(2) have "g_id x = g_id y" by simp
    with d x y show "x = y" by (meson distinct_map inj_onD)
  qed
  moreover from d have "distinct gs" by (simp add: distinct_map)
  ultimately show ?thesis by (simp add: distinct_map)
qed

lemma unread_for_match:
  assumes "sorts_desc createdAt msrt"
  shows "unread_for me (msrt (match_stage me coll)) c = unread_for me coll c"
proof -
  have "unread_for me (msrt (match_stage me coll)) c = unread_for me (match_stage me coll) c"
    unfolding unread_for_def by (rule length_filter_mset) (rule mset_msrt [OF assms])
  also have "\<dots> = unread_for me coll c"
    unfolding unread_for_def match_stage_def
    by (simp add: conj_commute) (metis (mono_tags, lifting) filter_cong)
  finally show ?thesis .
qed

lemma aggregate_facts:
  assumes m: "sorts_desc createdAt msrt"
    and g: "sorts_desc (\<lambda>g. createdAt (g_lastMessage g)) gsrt"
  shows "distinct (map g_id (aggregate msrt gsrt me coll))"
    and "set (map g_id (aggregate msrt gsrt me coll)) =
           chatId ` {m \<in> set coll. sender m = me \<or> recipient m = me}"
    and "sorted_wrt (\<lambda>a b. createdAt (g_lastMessage b) \<le> createdAt (g_lastMessage a))
           (aggregate msrt gsrt me coll)"
    and "x \<in> set (aggregate msrt gsrt me coll) \<Longrightarrow>
           g_unreadCount x = unread_for me coll (g_id x) \<and>
           g_lastMessage x \<in> set coll \<and>
           chatId (g_lastMessage x) = g_id x \<and>
           (sender (g_lastMessage x) = me \<or> recipient (g_lastMessage x) = me) \<and>
           (\<forall>y \<in> set coll. chatId y = g_id x \<and> (sender y = me \<or> recipient y = me) \<longrightarrow>
               createdAt y \<le> createdAt (g_lastMessage x))"
proof -
  let ?ms = "msrt (match_stage me coll)"
  let ?gs0 = "group_stage me ?ms"
  have ok: "groups_ok me ?ms ?gs0" by (rule groups_ok_group_stage)
  have ms: "set ?ms = {m \<in> set coll. sender m = me \<or> recipient m = me}"
    using set_msrt [OF m, of "match_stage me coll"] by (auto simp: match_stage_def)
  have agg: "aggregate msrt gsrt me coll = gsrt ?gs0" by (simp add: aggregate_def)
  have gm: "mset (gsrt ?gs0) = mset ?gs0" by (rule mset_msrt [OF g])
  have gset: "set (gsrt ?gs0) = set ?gs0" by (rule set_msrt [OF g])
  show "distinct (map g_id (aggregate msrt gsrt me coll))"
    using ok distinct_map_mset [OF gm, of g_id] by (simp add: agg groups_ok_def)
  show "set (map g_id (aggregate msrt gsrt me coll)) =
           chatId ` {m \<in> set coll. sender m = me \<or> recipient m = me}"
    using ok gset ms by (simp add: agg groups_ok_def)
  show "sorted_wrt (\<lambda>a b. createdAt (g_lastMessage b) \<le> createdAt (g_lastMessage a))
           (aggregate msrt gsrt me coll)"
    unfolding agg by (rule sorted_msrt [OF g])
  show "g_unreadCount x = unread_for me coll (g_id x) \<and>
           g_lastMessage x \<in> set coll \<and>
           chatId (g_lastMessage x) = g_id x \<and>
           (sender (g_lastMessage x) = me \<or> recipient (g_lastMessage x) = me) \<and>
           (\<forall>y \<in> set coll. chatId y = g_id x \<and> (sender y = me \<or> recipient y = me) \<longrightarrow>
               createdAt y \<le> createdAt (g_lastMessage x))"
    if "x \<in> set (aggregate msrt gsrt me coll)"
  proof -
    from that have x: "x \<in> set ?gs0" by (simp add: agg gset)
    with ok have u: "g_unreadCount x = unread_for me ?ms (g_id x)"
      and f: "find (\<lambda>m. chatId m = g_id x) ?ms = Some (g_lastMessage x)"
      by (auto simp: groups_ok_def)
    from find_Some_member [OF f] have lm: "g_lastMessage x \<in> set ?ms"
      and c: "chatId (g_lastMessage x) = g_id x" by auto
    have mx: "createdAt y \<le> createdAt (g_lastMessage x)"
      if "y \<in> set coll" "chatId y = g_id x" "sender y = me \<or> recipient y = me" for y
    proof -
      from that have "y \<in> set ?ms" by (simp add: ms)
      from find_sorted_first [OF sorted_msrt [OF m] f this that(2)]
      show ?thesis by auto
    qed
    show ?thesis
      using u lm c mx by (auto simp: unread_for_match [OF m] ms)
  qed
qed

lemma findById_member:
  "distinct (map msg_id coll) \<Longrightarrow> m \<in> set coll \<Longrightarrow> findById coll (msg_id m) = Some m"
  unfolding findById_def by (induction coll) (auto simp: image_iff)

lemma those_map_Some:
  "(\<And>x. x \<in> set xs \<Longrightarrow> f x = Some (h x)) \<Longrightarrow> those (map f xs) = Some (map h xs)"
  by (induction xs) simp_all

lemma those_map_None:
  "x \<in> set xs \<Longrightarrow> f x = None \<Longrightarrow> those (map f xs) = None"
  by (induction xs) (auto split: option.split)

lemma to_chat_found:
  assumes "distinct (map msg_id coll)" and "g_lastMessage x \<in> set coll"
  shows "to_chat coll users me x =
     (if sender (g_lastMessage x) \<notin> users \<or>
         (sender (g_lastMessage x) = me \<and> recipient (g_lastMessage x) \<notin> users)
      then None else Some (summary me x))"
  using findById_member [OF assms] by (simp add: to_chat_def summary_def)

lemma listConversations_summary:
  assumes m: "sorts_desc createdAt msrt"
    and g: "sorts_desc (\<lambda>g. createdAt (g_lastMessage g)) gsrt"
    and d: "distinct (map msg_id coll)"
    and u: "\<forall>x \<in> set coll. sender x = me \<or> recipient x = me \<longrightarrow>
              sender x \<in> users \<and> recipient x \<in> users"
  shows "listConversations msrt gsrt True coll users me =
           (200, Chats_body (map (summary me) (aggregate msrt gsrt me coll)))"
proof -
  have "to_chat coll users me x = Some (summary me x)"
    if "x \<in> set (aggregate msrt gsrt me coll)" for x
  proof -
    from aggregate_facts(4) [OF m g that]
    have "g_lastMessage x \<in> set coll"
      and "sender (g_lastMessage x) = me \<or> recipient (g_lastMessage x) = me" by simp_all
    with u to_chat_found [OF d, of x users me] show ?thesis by auto
  qed
  then have "those (map (to_chat coll users me) (aggregate msrt gsrt me coll)) =
      Some (map (summary me) (aggregate msrt gsrt me coll))"
    by (rule those_map_Some)
  then show ?thesis by (simp add: listConversations_def)
qed

text \<open>
  The other side of the lookup: when the sender of the last message of a conversation,
  or its recipient when the requesting user is the sender, has no User document, the
  whole request is answered with 500.
\<close>

lemma listConversations_missing_user:
  assumes m: "sorts_desc createdAt msrt"
    and g: "sorts_desc (\<lambda>g. createdAt (g_lastMessage g)) gsrt"
    and d: "distinct (map msg_id coll)"
    and x: "x \<in> set (aggregate msrt gsrt me coll)"
    and n: "sender (g_lastMessage x) \<notin> users \<or>
            (sender (g_lastMessage x) = me \<and> recipient (g_lastMessage x) \<notin> users)"
  shows "listConversations msrt gsrt up coll users me = (500, Info_body ''Server error'')"
proof -
  from aggregate_facts(4) [OF m g x] have "g_lastMessage x \<in> set coll" by simp
  with n to_chat_found [OF d, of x users me] have "to_chat coll users me x = None" by auto
  with x have "those (map (to_chat coll users me) (aggregate msrt gsrt me coll)) = None"
    by (rule those_map_None)
  then show ?thesis by (simp add: listConversations_def server_error_def)
qed

lemma self_log_eq:
  "self_log =
     [\<lparr>msg_id = 4, sender = ''A'', recipient = ''A'', content = ''note'',
        messageType = ''text'', chatId = ''A_A'', isRead = False, readAt = None,
        createdAt = 5\<rparr>]"
  by (simp add: self_log_def send_def save_def validate_def memo_def Let_def
        chatId_js_def js_sort2_def)

text \<open>
  C5 (as stated): the counterpart of a summary would be the one of sender and recipient
  of the last message that is not the requesting user. User \<open>A\<close> sends a message to
  \<open>A\<close>; in the conversation list of \<open>A\<close> the counterpart of that conversation is \<open>A\<close>.
\<close>

theorem listConversations_self_message_counterexample:
  "map sender self_log = [''A''] \<and> map recipient self_log = [''A''] \<and>
   map cs_otherUser (chats_of (listConversations (stable_desc createdAt)
       (stable_desc (\<lambda>g. createdAt (g_lastMessage g))) True self_log {''A''} ''A''))
     = [''A'']"
  by (simp add: self_log_eq listConversations_def aggregate_def match_stage_def
        group_stage_def stable_desc_def to_chat_def findById_def unread_inc_def chats_of_def)

text \<open>
  C5 (amended): with the storage available, unique message ids, engines that sort
  descending, and a User document for the sender and the recipient of every message that
  the user sent or received, the conversation list of a user is answered with status 200
  and holds exactly one summary for each conversation key found on a message that the
  user sent or received, no key twice, sorted by the \<^verbatim>\<open>createdAt\<close> of the last message,
  newest first. In each summary the unread count is the number of messages of that
  conversation addressed to the user with \<^verbatim>\<open>isRead = false\<close>; the last message is a
  message of that conversation sent or received by the user, none of those being newer;
  and the counterpart is the recipient of the last message when the user is its sender,
  and its sender otherwise: it is the sender or the recipient of the last message, and
  it is the user itself exactly when the last message is one the user sent to itself.
\<close>

theorem listConversations_summaries:
  assumes m: "sorts_desc createdAt msrt"
    and g: "sorts_desc (\<lambda>g. createdAt (g_lastMessage g)) gsrt"
    and d: "distinct (map msg_id coll)"
    and u: "\<forall>x \<in> set coll. sender x = me \<or> recipient x = me \<longrightarrow>
              sender x \<in> users \<and> recipient x \<in> users"
  shows "listConversations msrt gsrt True coll users me =
           (200, Chats_body (chats_of (listConversations msrt gsrt True coll users me))) \<and>
    distinct (map cs_chatId (chats_of (listConversations msrt gsrt True coll users me))) \<and>
    set (map cs_chatId (chats_of (listConversations msrt gsrt True coll users me))) =
      chatId ` {m \<in> set coll. sender m = me \<or> recipient m = me} \<and>
    sorted_wrt (\<lambda>a b. createdAt (cs_lastMessage b) \<le> createdAt (cs_lastMessage a))
      (chats_of (listConversations msrt gsrt True coll users me)) \<and>
    (\<forall>c \<in> set (chats_of (listConversations msrt gsrt True coll users me)).
       cs_unreadCount c =
         length (filter (\<lambda>m. chatId m = cs_chatId c \<and> recipient m = me \<and> \<not> isRead m) coll) \<and>
       cs_lastMessage c \<in> set coll \<and> chatId (cs_lastMessage c) = cs_chatId c \<and>
       (sender (cs_lastMessage c) = me \<or> recipient (cs_lastMessage c) = me) \<and>
       (\<forall>y \<in> set coll. chatId y = cs_chatId c \<and> (sender y = me \<or> recipient y = me) \<longrightarrow>
           createdAt y \<le> createdAt (cs_lastMessage c)) \<and>
       cs_otherUser c = (if sender (cs_lastMessage c) = me then recipient (cs_lastMessage c)
                         else sender (cs_lastMessage c)) \<and>
       cs_otherUser c \<in> {sender (cs_lastMessage c), recipient (cs_lastMessage c)} \<and>
       (cs_otherUser c = me \<longleftrightarrow>
          sender (cs_lastMessage c) = me \<and> recipient (cs_lastMessage c) = me))"
proof -
  let ?gs = "aggregate msrt gsrt me coll"
  let ?r = "listConversations msrt gsrt True coll users me"
  have cs: "chats_of ?r = map (summary me) ?gs"
    by (simp add: listConversations_summary [OF m g d u] chats_of_def)
  have 1: "?r = (200, Chats_body (chats_of ?r))"
    unfolding cs by (rule listConversations_summary [OF m g d u])
  have ids: "map cs_chatId (map (summary me) ?gs) = map g_id ?gs"
    by (simp add: summary_def)
  have 2: "distinct (map cs_chatId (map (summary me) ?gs))"
    unfolding ids by (rule aggregate_facts(1) [OF m g])
  have 3: "set (map cs_chatId (map (summary me) ?gs)) =
      chatId ` {m \<in> set coll. sender m = me \<or> recipient m = me}"
    unfolding ids by (rule aggregate_facts(2) [OF m g])
  have 4: "sorted_wrt (\<lambda>a b. createdAt (cs_lastMessage b) \<le> createdAt (cs_lastMessage a))
      (map (summary me) ?gs)"
    using aggregate_facts(3) [OF m g, of me coll] by (simp add: sorted_wrt_map summary_def)
  have 5: "cs_unreadCount c =
         length (filter (\<lambda>m. chatId m = cs_chatId c \<and> recipient m = me \<and> \<not> isRead m) coll) \<and>
       cs_lastMessage c \<in> set coll \<and> chatId (cs_lastMessage c) = cs_chatId c \<and>
       (sender (cs_lastMessage c) = me \<or> recipient (cs_lastMessage c) = me) \<and>
       (\<forall>y \<in> set coll. chatId y = cs_chatId c \<and> (sender y = me \<or> recipient y = me) \<longrightarrow>
           createdAt y \<le> createdAt (cs_lastMessage c)) \<and>
       cs_otherUser c = (if sender (cs_lastMessage c) = me then recipient (cs_lastMessage c)
                         else sender (cs_lastMessage c)) \<and>
       cs_otherUser c \<in> {sender (cs_lastMessage c), recipient (cs_lastMessage c)} \<and>
       (cs_otherUser c = me \<longleftrightarrow>
          sender (cs_lastMessage c) = me \<and> recipient (cs_lastMessage c) = me)"
    if "c \<in> set (map (summary me) ?gs)" for c
  proof -
    from that obtain x where x: "x \<in> set ?gs" and c: "c = summary me x" by auto
    from aggregate_facts(4) [OF m g x] show ?thesis
      unfolding c by (auto simp: summary_def unread_for_def)
  qed
  show ?thesis unfolding cs using 1 2 3 4 5 unfolding cs by blast
qed

theorem listConversations_summaries_witness:
  "sorts_desc createdAt (stable_desc createdAt) \<and>
   sorts_desc (\<lambda>g. createdAt (g_lastMessage g)) (stable_desc (\<lambda>g. createdAt (g_lastMessage g))) \<and>
   distinct (map msg_id [m1, m2, m3]) \<and>
   map sender [m1, m2, m3] = [''A'', ''B'', ''C''] \<and>
   map recipient [m1, m2, m3] = [''B'', ''A'', ''A''] \<and>
   listConversations (stable_desc createdAt) (stable_desc (\<lambda>g. createdAt (g_lastMessage g)))
       True [m1, m2, m3] {''A'', ''B'', ''C''} ''A'' =
     (200, Chats_body
        [\<lparr>cs_chatId = ''A_B'', cs_otherUser = ''B'', cs_lastMessage = m2, cs_unreadCount = 1\<rparr>,
         \<lparr>cs_chatId = ''A_C'', cs_otherUser = ''C'', cs_lastMessage = m3, cs_unreadCount = 1\<rparr>]) \<and>
   distinct (map cs_chatId (chats_of (listConversations (stable_desc createdAt)
       (stable_desc (\<lambda>g. createdAt (g_lastMessage g))) True [m1, m2, m3]
       {''A'', ''B'', ''C''} ''A'')))"
proof -
  have d: "distinct (map msg_id [m1, m2, m3])"
    by (simp add: m1_def m2_def m3_def)
  have u: "\<forall>x \<in> set [m1, m2, m3]. sender x = ''A'' \<or> recipient x = ''A'' \<longrightarrow>
      sender x \<in> {''A'', ''B'', ''C''} \<and> recipient x \<in> {''A'', ''B'', ''C''}"
    by (simp add: m1_def m2_def m3_def)
  have v: "listConversations (stable_desc createdAt)
       (stable_desc (\<lambda>g. createdAt (g_lastMessage g))) True [m1, m2, m3]
       {''A'', ''B'', ''C''} ''A'' =
     (200, Chats_body
        [\<lparr>cs_chatId = ''A_B'', cs_otherUser = ''B'', cs_lastMessage = m2, cs_unreadCount = 1\<rparr>,
         \<lparr>cs_chatId = ''A_C'', cs_otherUser = ''C'', cs_lastMessage = m3, cs_unreadCount = 1\<rparr>])"
    by (simp add: listConversations_def aggregate_def match_stage_def group_stage_def
          stable_desc_def to_chat_def findById_def unread_inc_def m1_def m2_def m3_def)
  from listConversations_summaries [OF sorts_desc_stable_desc sorts_desc_stable_desc d u]
  show ?thesis
    using d v by (simp add: sorts_desc_stable_desc) (simp add: m1_def m2_def m3_def)
qed

text \<open>
  C4 (as stated): two messages with the same \<^verbatim>\<open>createdAt\<close> would come out in the order
  in which they were appended, whatever the engine. The log holds message 1 and then
  message 2, both at time 10. Both engines sort by \<^verbatim>\<open>createdAt\<close> descending; with one the
  history is message 2 then message 1, with the other message 1 then message 2.
\<close>

theorem history_tie_order_counterexample:
  "sorts_desc createdAt (stable_desc createdAt) \<and> sorts_desc createdAt (rev_asc createdAt) \<and>
   map msg_id tie_log = [1, 2] \<and> map createdAt tie_log = [10, 10] \<and>
   map msg_id (messages_of
       (history (\<lambda>l s. stable_desc createdAt) True tie_log ''A'' ''B'' None None))
     = [2, 1] \<and>
   map msg_id (messages_of
       (history (\<lambda>l s. rev_asc createdAt) True tie_log ''A'' ''B'' None None))
     = [1, 2]"
  by (simp add: sorts_desc_stable_desc sorts_desc_rev_asc tie_log_eq history_def exec_find_def
        conversation_def messages_of_def chatId_js_def js_sort2_def apply_limit_def
        stable_desc_def rev_asc_def round_double_safe js_safe_def)

text \<open>
  C4 (amended): the order of the history and of the conversation list is the order of
  \<^verbatim>\<open>createdAt\<close> alone. When the messages of the conversation have pairwise different
  \<^verbatim>\<open>createdAt\<close>, the history is the same for every engine that sorts descending, and its
  messages are in strictly ascending \<^verbatim>\<open>createdAt\<close> order; when the messages that the user
  sent or received have pairwise different \<^verbatim>\<open>createdAt\<close>, the conversation list is the same
  for every such engine. Nothing is said about messages with equal \<^verbatim>\<open>createdAt\<close>: their
  order is the engine's.
\<close>

theorem ordering_by_createdAt_only:
  assumes h: "\<forall>l s. sorts_desc createdAt (hsrt l s)"
    and h': "\<forall>l s. sorts_desc createdAt (hsrt' l s)"
    and m: "sorts_desc createdAt msrt" and m': "sorts_desc createdAt msrt'"
    and g: "sorts_desc (\<lambda>g. createdAt (g_lastMessage g)) gsrt"
    and g': "sorts_desc (\<lambda>g. createdAt (g_lastMessage g)) gsrt'"
  shows "(distinct (map createdAt (conversation coll (chatId_of me other))) \<longrightarrow>
            history hsrt up coll me other p l = history hsrt' up coll me other p l \<and>
            sorted_wrt (\<lambda>a b. createdAt a < createdAt b)
              (messages_of (history hsrt up coll me other p l))) \<and>
         (distinct (map createdAt (match_stage me coll)) \<longrightarrow>
            listConversations msrt gsrt up coll users me =
            listConversations msrt' gsrt' up coll users me)"
proof (intro conjI impI)
  assume d: "distinct (map createdAt (conversation coll (chatId_of me other)))"
  let ?conv = "conversation coll (chatId_of me other)"
  have e: "hsrt a b (conversation coll (chatId_js (Some me) (Some other))) =
           hsrt' a b (conversation coll (chatId_js (Some me) (Some other)))" for a b
    using sorts_desc_unique [OF h [rule_format] h' [rule_format] d] by (simp add: chatId_of_def)
  have "exec_find hsrt up coll (chatId_js (Some me) (Some other)) a b =
        exec_find hsrt' up coll (chatId_js (Some me) (Some other)) a b" for a b
    by (simp add: exec_find_def e split: option.split)
  then show "history hsrt up coll me other p l = history hsrt' up coll me other p l"
    by (simp add: history_def Let_def)
  have "sorted_wrt (\<lambda>a b. createdAt a < createdAt b) (rev (take n (drop k (hsrt a b ?conv))))"
    for n k a b
  proof -
    have "distinct (map createdAt (hsrt a b ?conv))"
      using d distinct_map_mset [OF mset_msrt [OF h [rule_format]]] by blast
    with sorted_msrt [OF h [rule_format]]
    have "sorted_wrt (\<lambda>x y. createdAt y < createdAt x) (hsrt a b ?conv)"
      by (rule strict_desc)
    then show ?thesis
      by (simp add: sorted_wrt_rev sorted_wrt_take sorted_wrt_drop)
  qed
  with messages_of_history_cases [of hsrt up coll me other p l]
  show "sorted_wrt (\<lambda>a b. createdAt a < createdAt b)
          (messages_of (history hsrt up coll me other p l))"
    by auto
next
  assume d: "distinct (map createdAt (match_stage me coll))"
  let ?ms = "msrt (match_stage me coll)"
  have e: "msrt' (match_stage me coll) = ?ms"
    using sorts_desc_unique [OF m' m d] .
  have "distinct (map createdAt ?ms)"
    using d distinct_map_mset [OF mset_msrt [OF m]] by blast
  with groups_ok_group_stage
  have "distinct (map (\<lambda>g. createdAt (g_lastMessage g)) (group_stage me ?ms))"
    by (rule group_keys_distinct)
  with g g' have "gsrt (group_stage me ?ms) = gsrt' (group_stage me ?ms)"
    by (rule sorts_desc_unique)
  then have "aggregate msrt gsrt me coll = aggregate msrt' gsrt' me coll"
    by (simp add: aggregate_def e)
  then show "listConversations msrt gsrt up coll users me =
             listConversations msrt' gsrt' up coll users me"
    by (simp add: listConversations_def)
qed

theorem ordering_by_createdAt_only_witness:
  "(\<forall>l s. sorts_desc createdAt ((\<lambda>l s. stable_desc createdAt) l s)) \<and>
   (\<forall>l s. sorts_desc createdAt ((\<lambda>l s. rev_asc createdAt) l s)) \<and>
   sorts_desc createdAt (stable_desc createdAt) \<and> sorts_desc createdAt (rev_asc createdAt) \<and>
   sorts_desc (\<lambda>g. createdAt (g_lastMessage g)) (stable_desc (\<lambda>g. createdAt (g_lastMessage g))) \<and>
   sorts_desc (\<lambda>g. createdAt (g_lastMessage g)) (rev_asc (\<lambda>g. createdAt (g_lastMessage g))) \<and>
   distinct (map createdAt (conversation [m1, m2, m3] (chatId_of ''A'' ''B''))) \<and>
   history (\<lambda>l s. stable_desc createdAt) True [m1, m2, m3] ''A'' ''B'' None None =
     history (\<lambda>l s. rev_asc createdAt) True [m1, m2, m3] ''A'' ''B'' None None \<and>
   distinct (map createdAt (match_stage ''A'' [m1, m2, m3])) \<and>
   listConversations (stable_desc createdAt) (stable_desc (\<lambda>g. createdAt (g_lastMessage g)))
       True [m1, m2, m3] {''A'', ''B'', ''C''} ''A'' =
     listConversations (rev_asc createdAt) (rev_asc (\<lambda>g. createdAt (g_lastMessage g)))
       True [m1, m2, m3] {''A'', ''B'', ''C''} ''A''"
proof -
  have e: "\<forall>l s. sorts_desc createdAt ((\<lambda>l s. stable_desc createdAt) (l :: jsnum) (s :: jsnum))"
    and e': "\<forall>l s. sorts_desc createdAt ((\<lambda>l s. rev_asc createdAt) (l :: jsnum) (s :: jsnum))"
    by (simp_all add: sorts_desc_stable_desc sorts_desc_rev_asc)
  have d1: "distinct (map createdAt (conversation [m1, m2, m3] (chatId_of ''A'' ''B'')))"
    by (simp add: conversation_def chatId_of_def chatId_js_def js_sort2_def m1_def m2_def m3_def)
  have d2: "distinct (map createdAt (match_stage ''A'' [m1, m2, m3]))"
    by (simp add: match_stage_def m1_def m2_def m3_def)
  from ordering_by_createdAt_only [OF e e' sorts_desc_stable_desc sorts_desc_rev_asc
      sorts_desc_stable_desc sorts_desc_rev_asc,
      of "[m1, m2, m3]" "''A''" "''B''" True None None "{''A'', ''B'', ''C''}"]
  show ?thesis
    using d1 d2 by (simp add: sorts_desc_stable_desc sorts_desc_rev_asc)
qed

end
